theory Spec2Isabelle
  imports Complex_Main "HOL-Library.Sublist"
begin

section \<open>Text primitives of the Python standard library\<close>

text \<open>
  Python text is modelled as \<^typ>\<open>string\<close>. A \<^typ>\<open>char\<close> stands for one code point below
  256, so the development covers captured output in that range; there the decimal digits
  of \<^verbatim>\<open>\d\<close> are exactly \<^verbatim>\<open>0\<close>..\<^verbatim>\<open>9\<close> and the whitespace of \<^verbatim>\<open>str.isspace\<close> is the
  twelve code points listed below.
\<close>

definition ESC :: char where
  "ESC = CHR 0x1B"

definition isspace :: "char \<Rightarrow> bool" where
  "isspace c \<longleftrightarrow> (of_char c :: nat) \<in> {9, 10, 11, 12, 13, 28, 29, 30, 31, 32, 133, 160}"

definition isdigit :: "char \<Rightarrow> bool" where
  "isdigit c \<longleftrightarrow> 48 \<le> (of_char c :: nat) \<and> (of_char c :: nat) \<le> 57"

text \<open>\<^verbatim>\<open>str.rstrip()\<close>: drop the longest suffix of whitespace.\<close>

definition rstrip :: "string \<Rightarrow> string" where
  "rstrip s = rev (dropWhile isspace (rev s))"

text \<open>
  \<^verbatim>\<open>str.find\<close> and \<^verbatim>\<open>str.split(sep)\<close> for a separator that is not empty (both call
  sites pass a literal): the pieces between the occurrences of the separator, found left
  to right without overlap. Python refuses an empty separator with a ValueError; the
  model returns the text whole there, a case that is never reached.
\<close>

fun find_sub :: "string \<Rightarrow> string \<Rightarrow> nat option" where
  "find_sub sep [] = (if sep = [] then Some 0 else None)"
| "find_sub sep (c # cs) =
     (if prefix sep (c # cs) then Some 0 else map_option Suc (find_sub sep cs))"

lemma find_sub_bound: "find_sub sep s = Some i \<Longrightarrow> i + length sep \<le> length s"
proof (induction s arbitrary: i)
  case Nil
  then show ?case by (simp split: if_splits)
next
  case (Cons c cs)
  show ?case
  proof (cases "prefix sep (c # cs)")
    case True
    with Cons.prems have "i = 0" by simp
    with True show ?thesis using prefix_length_le [of sep "c # cs"] by simp
  next
    case False
    with Cons.prems obtain j where "find_sub sep cs = Some j" and "i = Suc j" by auto
    with Cons.IH [of j] show ?thesis by simp
  qed
qed

function split_py :: "string \<Rightarrow> string \<Rightarrow> string list" where
  "split_py sep s =
     (if sep = [] then [s]
      else case find_sub sep s of
             None \<Rightarrow> [s]
           | Some i \<Rightarrow> take i s # split_py sep (drop (i + length sep) s))"
  by pat_completeness auto
termination
proof (relation "measure (\<lambda>(sep, s). length s)")
  fix sep s :: string and i :: nat
  assume "sep \<noteq> []" and "find_sub sep s = Some i"
  then have "i + length sep \<le> length s" and "0 < length sep"
    using find_sub_bound [of sep s i] by simp_all
  then have "length s - (i + length sep) < length s"
    by arith
  then show "((sep, drop (i + length sep) s), (sep, s)) \<in> measure (\<lambda>(sep, s). length s)"
    by simp
qed simp

declare split_py.simps [simp del]

section \<open>CmdRunner: cleaning captured output\<close>

text \<open>
  \<^verbatim>\<open>_strip_shell_colors\<close> is \<^verbatim>\<open>re.sub(r'\x1b[^m]*m', '', text)\<close>. The scan goes left to
  right. At an escape character the pattern matches exactly when some \<^verbatim>\<open>m\<close> follows: the
  class \<^verbatim>\<open>[^m]\<close> admits every other character (line breaks and further escapes too), so
  the match ends at the first \<^verbatim>\<open>m\<close>; the match is deleted and the scan resumes behind
  it. Where no \<^verbatim>\<open>m\<close> follows, the escape character is kept.
\<close>

function strip_shell_colors :: "string \<Rightarrow> string" where
  "strip_shell_colors [] = []"
| "strip_shell_colors (c # cs) =
     (if c = ESC then
        (case dropWhile (\<lambda>x. x \<noteq> CHR ''m'') cs of
           [] \<Rightarrow> c # strip_shell_colors cs
         | m # rest \<Rightarrow> strip_shell_colors rest)
      else c # strip_shell_colors cs)"
  by pat_completeness auto
termination
proof (relation "measure length")
  fix c :: char and cs :: string and m :: char and rest :: string
  assume "dropWhile (\<lambda>x. x \<noteq> CHR ''m'') cs = m # rest"
  then have "length (m # rest) \<le> length cs"
    using length_dropWhile_le [of "\<lambda>x. x \<noteq> CHR ''m''" cs] by simp
  then show "(rest, c # cs) \<in> measure length" by simp
qed auto

text \<open>A colour sequence is present when an escape character has an \<^verbatim>\<open>m\<close> behind it.\<close>

fun has_shell_color :: "string \<Rightarrow> bool" where
  "has_shell_color [] = False"
| "has_shell_color (c # cs) = ((c = ESC \<and> CHR ''m'' \<in> set cs) \<or> has_shell_color cs)"

section \<open>Python numbers\<close>

text \<open>
  The number a text of decimal digits denotes. Python integers are unbounded, as
  \<^typ>\<open>int\<close> is.
\<close>

definition digit_value :: "char \<Rightarrow> int" where
  "digit_value c = of_char c - 48"

definition decimal_value :: "string \<Rightarrow> int" where
  "decimal_value g = foldl (\<lambda>a c. 10 * a + digit_value c) 0 g"

text \<open>
  A Python float is modelled by the rational number it denotes. \<^verbatim>\<open>memory_kb / 1024\<close> is
  true division of integers: its result is the exact quotient rounded to the nearest
  double (53 significant bits, ties to even), and an OverflowError when that double
  would reach \<open>2 ^ 1024\<close>. Dividing by \<open>1024 = 2 ^ 10\<close> only moves the exponent, so the
  rounding is that of the dividend. The dividend here is never negative.
\<close>

function bit_length :: "int \<Rightarrow> nat" where
  "bit_length n = (if n \<le> 0 then 0 else Suc (bit_length (n div 2)))"
  by pat_completeness auto
termination
  by (relation "measure nat") auto

declare bit_length.simps [simp del]

definition round_to_double :: "int \<Rightarrow> int" where
  "round_to_double k =
     (if bit_length k \<le> 53 then k
      else let e = bit_length k - 53;
               q = k div 2 ^ e;
               r = k mod 2 ^ e;
               half = 2 ^ (e - 1)
           in (if half < r \<or> (r = half \<and> odd q) then q + 1 else q) * 2 ^ e)"

datatype exn = OSError | IndexError | ValueError | OverflowError | TimeoutExpired

text \<open>
  The result of a call: it returns a value, raises, or never returns (a wait without a
  timeout for a process that does not end).
\<close>

datatype 'a outcome = Returns 'a | Raises exn | Blocks

definition and_then :: "'a outcome \<Rightarrow> ('a \<Rightarrow> 'b outcome) \<Rightarrow> 'b outcome" where
  "and_then m f = (case m of Returns x \<Rightarrow> f x | Raises e \<Rightarrow> Raises e | Blocks \<Rightarrow> Blocks)"

text \<open>
  \<^verbatim>\<open>int(g)\<close> on a text of decimal digits: the number it denotes. The interpreter (CPython
  from version 3.11 on, with its default setting) refuses a text of more than 4300
  digits, leading zeros counted, with a ValueError.
\<close>

definition int_of_digits :: "string \<Rightarrow> int outcome" where
  "int_of_digits g =
     (if 4300 < length g then Raises ValueError else Returns (decimal_value g))"

definition truediv_1024 :: "int \<Rightarrow> rat outcome" where
  "truediv_1024 k =
     (let m = round_to_double k
      in if 2 ^ 1034 \<le> m then Raises OverflowError else Returns (of_int m / 1024))"

text \<open>\<^verbatim>\<open>int(x)\<close> on a float: truncation towards zero.\<close>

definition int_of_float :: "rat \<Rightarrow> int" where
  "int_of_float x = (if 0 \<le> x then \<lfloor>x\<rfloor> else \<lceil>x\<rceil>)"

section \<open>CmdRunner: reading the report of the measuring tool\<close>

text \<open>
  \<^verbatim>\<open>re.search(r'Maximum resident set size \(kbytes\): (\d+)', output)\<close>: the leftmost
  place where the literal text is followed by at least one digit; group 1 is the longest
  run of digits there.
\<close>

definition MEMORY_MARKER :: string where
  "MEMORY_MARKER = ''Maximum resident set size (kbytes): ''"

definition memory_group :: "string \<Rightarrow> string" where
  "memory_group s = takeWhile isdigit (drop (length MEMORY_MARKER) s)"

fun search_memory :: "string \<Rightarrow> string option" where
  "search_memory [] = None"
| "search_memory (c # cs) =
     (if prefix MEMORY_MARKER (c # cs) \<and> memory_group (c # cs) \<noteq> []
      then Some (memory_group (c # cs))
      else search_memory cs)"

definition get_memory_from_measured_output :: "string \<Rightarrow> int outcome" where
  "get_memory_from_measured_output output =
     (let memory = 0
      in case search_memory output of
           None \<Rightarrow> Returns memory
         | Some g \<Rightarrow>
             if g \<noteq> [] then
               and_then (int_of_digits g) (\<lambda>memory_kb.
                 and_then (truediv_1024 memory_kb) (\<lambda>quotient.
                   let memory = int_of_float quotient
                   in Returns (if memory = 0 then 1 else memory)))
             else Returns memory)"

definition get_clean_output_from_measured_output :: "string \<Rightarrow> string" where
  "get_clean_output_from_measured_output output =
     (let out = output;
          out = hd (split_py ''Command being timed:'' out);
          out = hd (split_py ''Command exited with non-zero status'' out);
          out = rstrip out
      in out)"

section \<open>The host: configuration, clock and processes\<close>

text \<open>
  What a started process does with the text on its standard input: when it ends by
  itself (if ever), what it writes to standard output and standard error if it runs to
  its end, what it has written once a kill has ended it, and its exit status.
\<close>

record behaviour =
  finishes_after :: "rat option"
  written :: string
  written_before_kill :: string
  exit_status :: int

text \<open>
  Everything \<^verbatim>\<open>CmdRunner\<close> reads from outside: \<^verbatim>\<open>config.LOG_TIME\<close> (the configuration
  module is not part of the sources at hand, so its value is a parameter),
  \<^verbatim>\<open>shutil.which\<close>, the platform names, the interpreter's path, what
  \<^verbatim>\<open>subprocess.Popen\<close> does with a list of arguments (\<open>None\<close>: the launch fails), and the
  two readings of \<^verbatim>\<open>time.time()\<close> around a measured run. The wall clock can be set
  back between the readings, so they are not ordered.
\<close>

record host =
  LOG_TIME :: "string list"
  which :: "string \<Rightarrow> string option"
  sys_platform :: string
  os_name :: string
  sys_executable :: string
  popen :: "string list \<Rightarrow> (string \<Rightarrow> behaviour) option"
  time_before :: rat
  time_after :: rat

record process =
  p_args :: "string list"
  p_piped :: bool
  p_run :: "string \<Rightarrow> behaviour"

definition TIMEOUT_RC :: int where
  "TIMEOUT_RC = 137"

definition tool_exists :: "host \<Rightarrow> string \<Rightarrow> bool" where
  "tool_exists h tool_name \<longleftrightarrow> which h tool_name \<noteq> None"

definition is_windows :: "host \<Rightarrow> bool" where
  "is_windows h \<longleftrightarrow> sys_platform h \<in> {''win32'', ''msys''} \<or> os_name h = ''nt''"

definition Popen :: "host \<Rightarrow> string list \<Rightarrow> bool \<Rightarrow> process outcome" where
  "Popen h args piped =
     (case popen h args of
        None \<Rightarrow> Raises OSError
      | Some run \<Rightarrow> Returns \<lparr>p_args = args, p_piped = piped, p_run = run\<rparr>)"

definition LinuxProcess :: "host \<Rightarrow> string list \<Rightarrow> bool \<Rightarrow> process outcome" where
  "LinuxProcess h args piped = Popen h args piped"

definition WindowsProcess :: "host \<Rightarrow> string list \<Rightarrow> bool \<Rightarrow> process outcome" where
  "WindowsProcess h args piped =
     (if args \<noteq> [] \<and> suffix ''.py'' (hd args)
      then Popen h (sys_executable h # args) piped
      else Popen h args piped)"

definition start :: "host \<Rightarrow> string list \<Rightarrow> bool \<Rightarrow> process outcome" where
  "start h cmd buffer_output =
     (if is_windows h then WindowsProcess h cmd buffer_output
      else LinuxProcess h cmd buffer_output)"

text \<open>
  \<^verbatim>\<open>Popen.communicate\<close>: the data read from the pipe, or \<open>None\<close> where standard output
  was not piped. With a timeout it raises TimeoutExpired when the process has not ended
  by then; without one it waits for the end. After \<^verbatim>\<open>kill()\<close>, which is taken at its
  documentation (it ends the process and its children), a second call returns what was
  written until then.
\<close>

definition stdout_data :: "process \<Rightarrow> string \<Rightarrow> string option" where
  "stdout_data p text = (if p_piped p then Some text else None)"

definition communicate :: "process \<Rightarrow> string \<Rightarrow> int option \<Rightarrow> string option outcome" where
  "communicate p input timeout =
     (let b = p_run p input
      in case finishes_after b of
           None \<Rightarrow> (case timeout of None \<Rightarrow> Blocks | Some t \<Rightarrow> Raises TimeoutExpired)
         | Some d \<Rightarrow>
             (case timeout of
                None \<Rightarrow> Returns (stdout_data p (written b))
              | Some t \<Rightarrow>
                  if rat_of_int t < d then Raises TimeoutExpired
                  else Returns (stdout_data p (written b))))"

definition communicate_killed :: "process \<Rightarrow> string \<Rightarrow> string option" where
  "communicate_killed p input = stdout_data p (written_before_kill (p_run p input))"

definition returncode :: "process \<Rightarrow> string \<Rightarrow> int" where
  "returncode p input = exit_status (p_run p input)"

section \<open>CmdRunner: running a command\<close>

text \<open>
  \<^verbatim>\<open>_run_cmd\<close>, here \<open>run_cmd_internal\<close> (a name cannot begin with an underscore; the
  other private methods lose theirs). The whole body is inside the \<^verbatim>\<open>try\<close>; only TimeoutExpired, which only
  \<^verbatim>\<open>communicate\<close> raises, is caught. \<^verbatim>\<open>if output:\<close> holds for a text that is not empty.
  The signal handlers installed for the wait act on signals sent to the caller, which
  are outside this development.
\<close>

definition run_cmd_internal ::
  "host \<Rightarrow> string list \<Rightarrow> string \<Rightarrow> int option \<Rightarrow> bool \<Rightarrow> bool \<Rightarrow>
   (int \<times> string option \<times> int \<times> bool) outcome" where
  "run_cmd_internal h cmd input timeout buffer_output track_memory =
     (let memory = 0
      in and_then
           (if track_memory then
              (case LOG_TIME h of
                 [] \<Rightarrow> Raises IndexError
               | tool # _ \<Rightarrow> Returns (tool_exists h tool))
            else Returns False)
           (\<lambda>track_memory.
              let cmd = (if track_memory then LOG_TIME h @ cmd else cmd)
              in and_then (start h cmd buffer_output) (\<lambda>p.
                   case communicate p input timeout of
                     Returns output \<Rightarrow>
                       (case output of
                          Some (c # cs) \<Rightarrow>
                            let output = rstrip (c # cs);
                                output = strip_shell_colors output
                            in if track_memory then
                                 and_then (get_memory_from_measured_output output) (\<lambda>memory.
                                   let output = get_clean_output_from_measured_output output
                                   in Returns (memory, Some output, returncode p input, False))
                               else Returns (memory, Some output, returncode p input, False)
                        | _ \<Rightarrow> Returns (memory, output, returncode p input, False))
                   | Raises e \<Rightarrow>
                       if e = TimeoutExpired then
                         (case communicate_killed p input of
                            Some (c # cs) \<Rightarrow>
                              let output = rstrip (c # cs);
                                  output = strip_shell_colors output
                              in Returns (memory, Some output, TIMEOUT_RC, True)
                          | output \<Rightarrow> Returns (memory, output, TIMEOUT_RC, True))
                       else Raises e
                   | Blocks \<Rightarrow> Blocks)))"

definition run_cmd ::
  "host \<Rightarrow> string list \<Rightarrow> string \<Rightarrow> int option \<Rightarrow> bool \<Rightarrow>
   (string option \<times> int \<times> bool) outcome" where
  "run_cmd h cmd input timeout buffer_output =
     and_then (run_cmd_internal h cmd input timeout buffer_output False)
       (\<lambda>(_, output, return_code, timeouted). Returns (output, return_code, timeouted))"

definition run_measured_cmd ::
  "host \<Rightarrow> string list \<Rightarrow> string \<Rightarrow> int option \<Rightarrow>
   (int \<times> int \<times> string option \<times> int) outcome" where
  "run_measured_cmd h cmd input timeout =
     (let start = time_before h
      in and_then (run_cmd_internal h cmd input timeout True True)
           (\<lambda>(memory, output, rc, _).
              let elapsed = int_of_float (time_after h - start);
                  elapsed = (if elapsed = 0 then 1 else elapsed)
              in Returns (memory, elapsed, output, rc)))"

section \<open>The specification's wording, for comparison\<close>

text \<open>Elapsed time as the specification words it: \<open>max(1, round(end - start))\<close>.\<close>

definition spec_elapsed :: "rat \<Rightarrow> rat \<Rightarrow> int" where
  "spec_elapsed t0 t1 = max 1 (round (t1 - t0))"

text \<open>
  The cut point as the specification words it: the earlier of the two markers, or the
  end of the text where neither occurs.
\<close>

definition first_index :: "string \<Rightarrow> string \<Rightarrow> nat" where
  "first_index sep s = (case find_sub sep s of None \<Rightarrow> length s | Some i \<Rightarrow> i)"

definition spec_clean_output :: "string \<Rightarrow> string" where
  "spec_clean_output output =
     rstrip (take (min (first_index ''Command being timed:'' output)
                       (first_index ''Command exited with non-zero status'' output)) output)"

section \<open>Example hosts\<close>

text \<open>
  A Linux host on which every launch succeeds and every process behaves as \<open>b\<close>; the
  measuring tool is \<^verbatim>\<open>/usr/bin/time -v\<close> and \<open>tool\<close> says whether it is installed. The
  clock reads \<open>t0\<close> before and \<open>t1\<close> after the run.
\<close>

definition example_host :: "behaviour \<Rightarrow> bool \<Rightarrow> rat \<Rightarrow> rat \<Rightarrow> host" where
  "example_host b tool t0 t1 =
     \<lparr>LOG_TIME = [''/usr/bin/time'', ''-v''],
      which = (\<lambda>name. if tool \<and> name = ''/usr/bin/time'' then Some name else None),
      sys_platform = ''linux'',
      os_name = ''posix'',
      sys_executable = ''/usr/bin/python3'',
      popen = (\<lambda>args. Some (\<lambda>input. b)),
      time_before = t0,
      time_after = t1\<rparr>"

text \<open>A process that ends after \<open>d\<close> seconds with status \<open>rc\<close>, having written \<open>text\<close>.\<close>

definition example_run :: "rat \<Rightarrow> string \<Rightarrow> int \<Rightarrow> behaviour" where
  "example_run d text rc =
     \<lparr>finishes_after = Some d, written = text, written_before_kill = text, exit_status = rc\<rparr>"

text \<open>
  A process that would run for ten seconds; a kill ends it with status \<open>-15\<close> after it has
  written the first part of its output.
\<close>

definition killed_run :: behaviour where
  "killed_run =
     \<lparr>finishes_after = Some 10, written = ''partial output, then more'',
      written_before_kill = ''partial output  '', exit_status = - 15\<rparr>"

text \<open>The measured output of the specification's example.\<close>

definition example_measured_output :: string where
  "example_measured_output =
     ''hello'' @ [CHR 0x0A] @ ''    Command being timed: '' @ [CHR 0x22] @ ''x'' @
     [CHR 0x22, CHR 0x0A] @ ''    Maximum resident set size (kbytes): 4096'' @ [CHR 0x0A]"

section \<open>Properties of colour stripping\<close>

lemma dropWhile_not_m_Nil: "dropWhile (\<lambda>x. x \<noteq> CHR ''m'') cs = [] \<longleftrightarrow> CHR ''m'' \<notin> set cs"
  by (induction cs) auto

lemma set_dropWhile_subset: "set (dropWhile P xs) \<subseteq> set xs"
  by (induction xs) auto

lemma strip_shell_colors_Cons_keep:
  "c \<noteq> ESC \<or> CHR ''m'' \<notin> set cs \<Longrightarrow> strip_shell_colors (c # cs) = c # strip_shell_colors cs"
proof (cases "c = ESC")
  case True
  assume "c \<noteq> ESC \<or> CHR ''m'' \<notin> set cs"
  with True have "dropWhile (\<lambda>x. x \<noteq> CHR ''m'') cs = []"
    using dropWhile_not_m_Nil [of cs] by blast
  then show ?thesis by (simp del: dropWhile_eq_Nil_conv)
next
  case False
  then show ?thesis by simp
qed

lemma strip_shell_colors_Cons_drop:
  "dropWhile (\<lambda>x. x \<noteq> CHR ''m'') cs = m # rest \<Longrightarrow>
   strip_shell_colors (ESC # cs) = strip_shell_colors rest"
  by (simp del: dropWhile_eq_Nil_conv)

lemma set_strip_shell_colors: "set (strip_shell_colors s) \<subseteq> set s"
proof (induction s rule: strip_shell_colors.induct)
  case 1
  show ?case by simp
next
  case (2 c cs)
  show ?case
  proof (cases "c = ESC \<and> CHR ''m'' \<in> set cs")
    case False
    then have eq: "strip_shell_colors (c # cs) = c # strip_shell_colors cs"
      using strip_shell_colors_Cons_keep [of c cs] by blast
    have "set (strip_shell_colors cs) \<subseteq> set cs"
    proof (cases "c = ESC")
      case True
      with False have "dropWhile (\<lambda>x. x \<noteq> CHR ''m'') cs = []"
        using dropWhile_not_m_Nil [of cs] by blast
      with True show ?thesis using "2.IH"(1) by blast
    next
      case False
      then show ?thesis using "2.IH"(3) by blast
    qed
    with eq show ?thesis by auto
  next
    case True
    then obtain m rest where dw: "dropWhile (\<lambda>x. x \<noteq> CHR ''m'') cs = m # rest"
      using dropWhile_not_m_Nil [of cs] by (cases "dropWhile (\<lambda>x. x \<noteq> CHR ''m'') cs") auto
    have "set (m # rest) \<subseteq> set cs"
      using set_dropWhile_subset [of "\<lambda>x. x \<noteq> CHR ''m''" cs] dw by simp
    then have sub: "set rest \<subseteq> set cs" by simp
    have "set (strip_shell_colors rest) \<subseteq> set rest"
      using "2.IH"(2) True dw by blast
    moreover have "strip_shell_colors (c # cs) = strip_shell_colors rest"
      using True strip_shell_colors_Cons_drop [OF dw] by simp
    ultimately show ?thesis using sub by auto
  qed
qed

lemma strip_shell_colors_clean: "\<not> has_shell_color (strip_shell_colors s)"
proof (induction s rule: strip_shell_colors.induct)
  case 1
  show ?case by simp
next
  case (2 c cs)
  show ?case
  proof (cases "c = ESC \<and> CHR ''m'' \<in> set cs")
    case False
    then have eq: "strip_shell_colors (c # cs) = c # strip_shell_colors cs"
      using strip_shell_colors_Cons_keep [of c cs] by blast
    have ih: "\<not> has_shell_color (strip_shell_colors cs)"
    proof (cases "c = ESC")
      case True
      with False have "dropWhile (\<lambda>x. x \<noteq> CHR ''m'') cs = []"
        using dropWhile_not_m_Nil [of cs] by blast
      with True show ?thesis using "2.IH"(1) by blast
    next
      case False
      then show ?thesis using "2.IH"(3) by blast
    qed
    have "c = ESC \<Longrightarrow> CHR ''m'' \<notin> set (strip_shell_colors cs)"
      using False set_strip_shell_colors [of cs] by auto
    with eq ih show ?thesis by auto
  next
    case True
    then obtain m rest where dw: "dropWhile (\<lambda>x. x \<noteq> CHR ''m'') cs = m # rest"
      using dropWhile_not_m_Nil [of cs] by (cases "dropWhile (\<lambda>x. x \<noteq> CHR ''m'') cs") auto
    have "\<not> has_shell_color (strip_shell_colors rest)"
      using "2.IH"(2) True dw by blast
    moreover have "strip_shell_colors (c # cs) = strip_shell_colors rest"
      using True strip_shell_colors_Cons_drop [OF dw] by simp
    ultimately show ?thesis by simp
  qed
qed

lemma strip_shell_colors_fixed: "\<not> has_shell_color s \<Longrightarrow> strip_shell_colors s = s"
proof (induction s)
  case Nil
  show ?case by simp
next
  case (Cons c cs)
  from Cons.prems have "c \<noteq> ESC \<or> CHR ''m'' \<notin> set cs" and "\<not> has_shell_color cs"
    by auto
  then show ?case
    using strip_shell_colors_Cons_keep [of c cs] Cons.IH by simp
qed

lemma has_shell_color_iff:
  "has_shell_color s \<longleftrightarrow> (\<exists>pre mid post. s = pre @ ESC # mid @ CHR ''m'' # post)"
proof (induction s)
  case Nil
  show ?case by simp
next
  case (Cons c cs)
  show ?case
  proof
    assume "has_shell_color (c # cs)"
    then consider "c = ESC" "CHR ''m'' \<in> set cs" | "has_shell_color cs" by auto
    then show "\<exists>pre mid post. c # cs = pre @ ESC # mid @ CHR ''m'' # post"
    proof cases
      case 1
      then obtain mid post where "cs = mid @ CHR ''m'' # post"
        by (meson split_list)
      with 1 have "c # cs = [] @ ESC # mid @ CHR ''m'' # post" by simp
      then show ?thesis by blast
    next
      case 2
      then obtain pre mid post where "cs = pre @ ESC # mid @ CHR ''m'' # post"
        using Cons.IH by blast
      then have "c # cs = (c # pre) @ ESC # mid @ CHR ''m'' # post" by simp
      then show ?thesis by blast
    qed
  next
    assume "\<exists>pre mid post. c # cs = pre @ ESC # mid @ CHR ''m'' # post"
    then obtain pre mid post where eq: "c # cs = pre @ ESC # mid @ CHR ''m'' # post" by blast
    show "has_shell_color (c # cs)"
    proof (cases pre)
      case Nil
      with eq have "c = ESC" "cs = mid @ CHR ''m'' # post" by simp_all
      then show ?thesis by simp
    next
      case (Cons p pre')
      with eq have "cs = pre' @ ESC # mid @ CHR ''m'' # post" by simp
      then have "has_shell_color cs" using Cons.IH by blast
      then show ?thesis by simp
    qed
  qed
qed

lemma strip_shell_colors_snoc:
  "c \<noteq> CHR ''m'' \<Longrightarrow> strip_shell_colors (s @ [c]) = strip_shell_colors s @ [c]"
proof (induction s rule: strip_shell_colors.induct)
  case 1
  then show ?case
    using strip_shell_colors_Cons_keep [of c "[]"] by simp
next
  case (2 d ds)
  show ?case
  proof (cases "d = ESC \<and> CHR ''m'' \<in> set ds")
    case False
    then have eq: "strip_shell_colors (d # ds) = d # strip_shell_colors ds"
      using strip_shell_colors_Cons_keep [of d ds] by blast
    have "d \<noteq> ESC \<or> CHR ''m'' \<notin> set (ds @ [c])" using False "2.prems" by auto
    then have eq': "strip_shell_colors (d # (ds @ [c])) = d # strip_shell_colors (ds @ [c])"
      by (rule strip_shell_colors_Cons_keep)
    have ih: "strip_shell_colors (ds @ [c]) = strip_shell_colors ds @ [c]"
    proof (cases "d = ESC")
      case True
      with False have "dropWhile (\<lambda>x. x \<noteq> CHR ''m'') ds = []"
        using dropWhile_not_m_Nil [of ds] by blast
      with True show ?thesis using "2.IH"(1) "2.prems" by blast
    next
      case False
      then show ?thesis using "2.IH"(3) "2.prems" by blast
    qed
    from eq eq' ih show ?thesis by simp
  next
    case True
    then obtain m rest where dw: "dropWhile (\<lambda>x. x \<noteq> CHR ''m'') ds = m # rest"
      using dropWhile_not_m_Nil [of ds] by (cases "dropWhile (\<lambda>x. x \<noteq> CHR ''m'') ds") auto
    from True have "\<exists>x\<in>set ds. \<not> x \<noteq> CHR ''m''" by auto
    then have "dropWhile (\<lambda>x. x \<noteq> CHR ''m'') (ds @ [c]) = dropWhile (\<lambda>x. x \<noteq> CHR ''m'') ds @ [c]"
      by (simp add: dropWhile_append1)
    with dw have dw': "dropWhile (\<lambda>x. x \<noteq> CHR ''m'') (ds @ [c]) = m # (rest @ [c])" by simp
    have "strip_shell_colors (rest @ [c]) = strip_shell_colors rest @ [c]"
      using "2.IH"(2) True dw "2.prems" by blast
    moreover have "strip_shell_colors (d # ds) = strip_shell_colors rest"
      using True strip_shell_colors_Cons_drop [OF dw] by simp
    moreover have "strip_shell_colors (d # (ds @ [c])) = strip_shell_colors (rest @ [c])"
      using True strip_shell_colors_Cons_drop [OF dw'] by simp
    ultimately show ?thesis by simp
  qed
qed


text \<open>
  Claim C6. Stripping shell colours is idempotent: for every text, stripping the stripped
  text again changes nothing.
\<close>

theorem strip_shell_colors_idempotent:
  "strip_shell_colors (strip_shell_colors text) = strip_shell_colors text"
  by (rule strip_shell_colors_fixed) (rule strip_shell_colors_clean)

section \<open>Helper facts: trimming, waiting, starting\<close>

lemma rstrip_Nil: "rstrip [] = []"
  by (simp add: rstrip_def)

lemma rstrip_snoc: "rstrip (s @ [c]) = (if isspace c then rstrip s else s @ [c])"
  by (simp add: rstrip_def)

lemma rstrip_last: "rstrip s \<noteq> [] \<Longrightarrow> \<not> isspace (last (rstrip s))"
  by (induction s rule: rev_induct) (auto simp: rstrip_snoc rstrip_Nil)

lemma rstrip_fixed: "s = [] \<or> \<not> isspace (last s) \<Longrightarrow> rstrip s = s"
  by (cases s rule: rev_cases) (auto simp: rstrip_snoc rstrip_Nil)

lemma rstrip_idem: "rstrip (rstrip s) = rstrip s"
  using rstrip_last [of s] rstrip_fixed [of "rstrip s"] by blast

lemma communicate_expires:
  assumes "timeout = Some t"
    and "\<forall>d. finishes_after (p_run p input) = Some d \<longrightarrow> rat_of_int t < d"
  shows "communicate p input timeout = Raises TimeoutExpired"
  using assms by (cases "finishes_after (p_run p input)") (simp_all add: communicate_def)

lemma communicate_finishes:
  assumes "finishes_after (p_run p input) = Some d"
    and "\<forall>t. timeout = Some t \<longrightarrow> d \<le> rat_of_int t"
  shows "communicate p input timeout = Returns (stdout_data p (written (p_run p input)))"
  using assms by (cases timeout) (auto simp: communicate_def)

lemma start_cases:
  "start h cmd buffer_output = Returns p \<Longrightarrow>
   p_piped p = buffer_output \<and> (\<exists>args. popen h args = Some (p_run p) \<and> p_args p = args)"
  by (auto simp: start_def WindowsProcess_def LinuxProcess_def Popen_def
      split: if_splits option.splits)

lemma run_cmd_internal_plain_finished:
  assumes "start h cmd buffer_output = Returns p"
    and "communicate p input timeout = Returns out"
  shows "run_cmd_internal h cmd input timeout buffer_output False =
         Returns (0, map_option (\<lambda>s. strip_shell_colors (rstrip s)) out, returncode p input, False)"
  using assms
  by (cases out; simp add: run_cmd_internal_def and_then_def rstrip_Nil split: list.splits)

lemma run_cmd_internal_plain_expired:
  assumes "start h cmd buffer_output = Returns p"
    and "communicate p input timeout = Raises TimeoutExpired"
  shows "run_cmd_internal h cmd input timeout buffer_output False =
         Returns (0, map_option (\<lambda>s. strip_shell_colors (rstrip s)) (communicate_killed p input),
                  TIMEOUT_RC, True)"
  using assms
  by (cases "communicate_killed p input";
      simp add: run_cmd_internal_def and_then_def rstrip_Nil split: list.splits)

lemma run_cmd_internal_no_tool:
  assumes "LOG_TIME h = tool # args" and "\<not> tool_exists h tool"
  shows "run_cmd_internal h cmd input timeout buffer_output True =
         run_cmd_internal h cmd input timeout buffer_output False"
  using assms by (simp add: run_cmd_internal_def and_then_def)

lemma run_cmd_internal_tracked_expired:
  assumes "LOG_TIME h = tool # args" and "tool_exists h tool"
    and "start h (LOG_TIME h @ cmd) buffer_output = Returns p"
    and "communicate p input timeout = Raises TimeoutExpired"
  shows "run_cmd_internal h cmd input timeout buffer_output True =
         Returns (0, map_option (\<lambda>s. strip_shell_colors (rstrip s)) (communicate_killed p input),
                  TIMEOUT_RC, True)"
  using assms
  by (cases "communicate_killed p input";
      simp add: run_cmd_internal_def and_then_def rstrip_Nil split: list.splits)

lemma run_cmd_internal_tracked_finished:
  assumes "LOG_TIME h = tool # args" and "tool_exists h tool"
    and "start h (LOG_TIME h @ cmd) buffer_output = Returns p"
    and "communicate p input timeout = Returns (Some (c # cs))"
  shows "run_cmd_internal h cmd input timeout buffer_output True =
         and_then (get_memory_from_measured_output (strip_shell_colors (rstrip (c # cs))))
           (\<lambda>memory. Returns (memory,
              Some (get_clean_output_from_measured_output (strip_shell_colors (rstrip (c # cs)))),
              returncode p input, False))"
  using assms
  by (simp add: run_cmd_internal_def and_then_def Let_def)

section \<open>Results of a run\<close>

lemma example_start:
  "start (example_host b tool t0 t1) cmd buffer_output =
   Returns \<lparr>p_args = cmd, p_piped = buffer_output, p_run = (\<lambda>input. b)\<rparr>"
  by (simp add: start_def is_windows_def LinuxProcess_def Popen_def example_host_def)

lemma run_cmd_finished:
  assumes "start h cmd buffer_output = Returns p"
    and "finishes_after (p_run p input) = Some d"
    and "\<forall>t. timeout = Some t \<longrightarrow> d \<le> rat_of_int t"
  shows "run_cmd h cmd input timeout buffer_output =
         Returns (map_option (\<lambda>s. strip_shell_colors (rstrip s))
                    (stdout_data p (written (p_run p input))),
                  exit_status (p_run p input), False)"
  using run_cmd_internal_plain_finished [OF assms(1) communicate_finishes [OF assms(2,3)]]
  by (simp add: run_cmd_def and_then_def returncode_def)




lemma strip_keeps_trimmed:
  assumes "s = [] \<or> last s \<noteq> CHR ''m''" and "rstrip s = s"
  shows "rstrip (strip_shell_colors s) = strip_shell_colors s"
proof (cases s rule: rev_cases)
  case Nil
  then show ?thesis by (simp add: rstrip_Nil)
next
  case (snoc ys y)
  with assms(1) have "y \<noteq> CHR ''m''" by simp
  then have eq: "strip_shell_colors s = strip_shell_colors ys @ [y]"
    using snoc strip_shell_colors_snoc [of y ys] by simp
  have "\<not> isspace y"
    using assms(2) snoc rstrip_last [of s] by simp
  with eq show ?thesis by (simp add: rstrip_snoc)
qed

text \<open>
  Claim C4, amended. A buffered run that ends in time returns the captured text with
  trailing whitespace trimmed first and shell colours stripped afterwards, once. The
  returned text holds no colour sequence. It has no trailing whitespace whenever the
  trimmed capture does not end in the letter \<open>m\<close>, the last character of a colour
  sequence; whitespace in front of a final colour sequence stays.
\<close>

theorem run_cmd_buffered_output:
  assumes "start h cmd True = Returns p"
    and "finishes_after (p_run p input) = Some d"
    and "\<forall>t. timeout = Some t \<longrightarrow> d \<le> rat_of_int t"
    and "raw = written (p_run p input)"
  shows "run_cmd h cmd input timeout True =
           Returns (Some (strip_shell_colors (rstrip raw)), exit_status (p_run p input), False) \<and>
         \<not> has_shell_color (strip_shell_colors (rstrip raw)) \<and>
         (rstrip raw = [] \<or> last (rstrip raw) \<noteq> CHR ''m'' \<longrightarrow>
            rstrip (strip_shell_colors (rstrip raw)) = strip_shell_colors (rstrip raw))"
proof -
  have "p_piped p" using start_cases [OF assms(1)] by simp
  then have "run_cmd h cmd input timeout True =
           Returns (Some (strip_shell_colors (rstrip raw)), exit_status (p_run p input), False)"
    using run_cmd_finished [OF assms(1-3)] assms(4) by (simp add: stdout_data_def)
  moreover have "\<not> has_shell_color (strip_shell_colors (rstrip raw))"
    by (rule strip_shell_colors_clean)
  moreover have "rstrip raw = [] \<or> last (rstrip raw) \<noteq> CHR ''m'' \<longrightarrow>
            rstrip (strip_shell_colors (rstrip raw)) = strip_shell_colors (rstrip raw)"
    using strip_keeps_trimmed [of "rstrip raw"] rstrip_idem [of raw] by blast
  ultimately show ?thesis by blast
qed

theorem run_cmd_buffered_output_witness:
  "run_cmd (example_host (example_run 1 (''ok'' @ [ESC] @ ''[0m done '') 0) False 0 1)
     [''tool''] [] None True = Returns (Some ''ok done'', 0, False) \<and>
   \<not> has_shell_color ''ok done'' \<and> rstrip ''ok done'' = ''ok done''"
proof -
  have stripped: "strip_shell_colors (rstrip (''ok'' @ [ESC] @ ''[0m done '')) = ''ok done''"
    by code_simp
  have lst: "last (rstrip (''ok'' @ [ESC] @ ''[0m done '')) \<noteq> CHR ''m''"
    by code_simp
  show ?thesis
    using run_cmd_buffered_output [of
        "example_host (example_run 1 (''ok'' @ [ESC] @ ''[0m done '') 0) False 0 1" "[''tool'']"
        "\<lparr>p_args = [''tool''], p_piped = True,
          p_run = (\<lambda>input. example_run 1 (''ok'' @ [ESC] @ ''[0m done '') 0)\<rparr>"
        "[]" 1 None "''ok'' @ [ESC] @ ''[0m done ''"] stripped lst
    by (simp add: example_start example_run_def)
qed

text \<open>
  The claim as stated fails: the capture \<open>a\<close>, a blank and a colour sequence comes back
  as \<open>a\<close> and the blank.
\<close>

theorem run_cmd_trailing_whitespace_counterexample:
  "run_cmd (example_host (example_run 1 (''a '' @ [ESC] @ ''[0m'') 0) False 0 1)
     [''tool''] [] None True = Returns (Some ''a '', 0, False) \<and>
   isspace (last ''a '') \<and> rstrip ''a '' \<noteq> ''a ''"
proof -
  have "strip_shell_colors (rstrip (''a '' @ [ESC] @ ''[0m'')) = ''a ''"
    by code_simp
  then have "run_cmd (example_host (example_run 1 (''a '' @ [ESC] @ ''[0m'') 0) False 0 1)
     [''tool''] [] None True = Returns (Some ''a '', 0, False)"
    using run_cmd_finished [of
        "example_host (example_run 1 (''a '' @ [ESC] @ ''[0m'') 0) False 0 1" "[''tool'']" True
        "\<lparr>p_args = [''tool''], p_piped = True,
          p_run = (\<lambda>input. example_run 1 (''a '' @ [ESC] @ ''[0m'') 0)\<rparr>"
        "[]" 1 None]
    by (simp add: example_start example_run_def stdout_data_def)
  moreover have "isspace (last ''a '')" by code_simp
  moreover have "rstrip ''a '' \<noteq> ''a ''" by code_simp
  ultimately show ?thesis by blast
qed

lemma run_cmd_unbuffered_None:
  assumes "run_cmd h cmd input timeout False = Returns (output, rc, timeouted)"
  shows "output = None"
proof (cases "start h cmd False")
  case (Returns p)
  then have np: "\<not> p_piped p" using start_cases [of h cmd False p] by simp
  show ?thesis
  proof (cases "communicate p input timeout")
    case (Returns out)
    then have "out = None"
      using np by (auto simp: communicate_def stdout_data_def Let_def split: option.splits if_splits)
    with assms run_cmd_internal_plain_finished [OF \<open>start h cmd False = Returns p\<close> Returns]
    show ?thesis by (simp add: run_cmd_def and_then_def)
  next
    case (Raises e)
    then have "e = TimeoutExpired"
      by (auto simp: communicate_def Let_def split: option.splits if_splits)
    with Raises assms np
      run_cmd_internal_plain_expired [OF \<open>start h cmd False = Returns p\<close>, of input timeout]
    show ?thesis
      by (simp add: run_cmd_def and_then_def communicate_killed_def stdout_data_def)
  next
    case Blocks
    with assms \<open>start h cmd False = Returns p\<close> show ?thesis
      by (simp add: run_cmd_def run_cmd_internal_def and_then_def)
  qed
next
  case (Raises e)
  with assms show ?thesis by (simp add: run_cmd_def run_cmd_internal_def and_then_def)
next
  case Blocks
  with assms show ?thesis by (simp add: run_cmd_def run_cmd_internal_def and_then_def)
qed

text \<open>
  Claim C8, amended. Without buffering the returned output is \<open>None\<close>, whatever the
  process wrote and however the run ends. With buffering, a command that ends in time
  and wrote nothing yields the empty text, not \<open>None\<close>.
\<close>

theorem run_cmd_output_presence:
  "(\<forall>output rc timeouted.
      run_cmd h cmd input timeout False = Returns (output, rc, timeouted) \<longrightarrow> output = None) \<and>
   (start h cmd buffer_output = Returns p \<and> finishes_after (p_run p input) = Some d \<and>
    (\<forall>t. timeout = Some t \<longrightarrow> d \<le> rat_of_int t) \<longrightarrow>
      (\<not> buffer_output \<longrightarrow>
         run_cmd h cmd input timeout buffer_output =
           Returns (None, exit_status (p_run p input), False)) \<and>
      (buffer_output \<and> written (p_run p input) = [] \<longrightarrow>
         run_cmd h cmd input timeout buffer_output =
           Returns (Some [], exit_status (p_run p input), False)))"
proof (intro conjI allI impI)
  fix out rc timeouted
  assume "run_cmd h cmd input timeout False = Returns (out, rc, timeouted)"
  then show "out = None" by (rule run_cmd_unbuffered_None)
next
  assume a: "start h cmd buffer_output = Returns p \<and> finishes_after (p_run p input) = Some d \<and>
    (\<forall>t. timeout = Some t \<longrightarrow> d \<le> rat_of_int t)" and nb: "\<not> buffer_output"
  then have "\<not> p_piped p" using start_cases [of h cmd buffer_output p] by simp
  then show "run_cmd h cmd input timeout buffer_output =
           Returns (None, exit_status (p_run p input), False)"
    using run_cmd_finished [of h cmd buffer_output p input d timeout] a
    by (simp add: stdout_data_def)
next
  assume a: "start h cmd buffer_output = Returns p \<and> finishes_after (p_run p input) = Some d \<and>
    (\<forall>t. timeout = Some t \<longrightarrow> d \<le> rat_of_int t)"
    and b: "buffer_output \<and> written (p_run p input) = []"
  then have "p_piped p" using start_cases [of h cmd buffer_output p] by simp
  then show "run_cmd h cmd input timeout buffer_output =
           Returns (Some [], exit_status (p_run p input), False)"
    using run_cmd_finished [of h cmd buffer_output p input d timeout] a b
    by (simp add: stdout_data_def rstrip_Nil)
qed

theorem run_cmd_output_presence_witness:
  "run_cmd (example_host (example_run 1 ''printed text'' 0) False 0 1) [''tool''] [] None False =
     Returns (None, 0, False) \<and>
   run_cmd (example_host (example_run 1 [] 3) False 0 1) [''tool''] [] None True =
     Returns (Some [], 3, False)"
  using run_cmd_output_presence [of
      "example_host (example_run 1 ''printed text'' 0) False 0 1" "[''tool'']" "[]" None False
      "\<lparr>p_args = [''tool''], p_piped = False, p_run = (\<lambda>input. example_run 1 ''printed text'' 0)\<rparr>" 1]
    run_cmd_output_presence [of
      "example_host (example_run 1 [] 3) False 0 1" "[''tool'']" "[]" None True
      "\<lparr>p_args = [''tool''], p_piped = True, p_run = (\<lambda>input. example_run 1 [] 3)\<rparr>" 1]
  by (simp add: example_start example_run_def)

text \<open>
  The claim as stated fails: a buffered run of a command that writes nothing returns the
  empty text.
\<close>

theorem run_cmd_empty_output_counterexample:
  "run_cmd (example_host (example_run 1 [] 0) False 0 1) [''true''] [] None True =
     Returns (Some [], 0, False) \<and>
   run_cmd (example_host (example_run 1 [] 0) False 0 1) [''true''] [] None True \<noteq>
     Returns (None, 0, False)"
  using run_cmd_finished [of "example_host (example_run 1 [] 0) False 0 1" "[''true'']" True
      "\<lparr>p_args = [''true''], p_piped = True, p_run = (\<lambda>input. example_run 1 [] 0)\<rparr>" "[]" 1 None]
  by (simp add: example_start example_run_def stdout_data_def rstrip_Nil)

section \<open>Measured runs\<close>

lemma run_measured_cmd_unfold:
  "run_measured_cmd h cmd input timeout =
   and_then (run_cmd_internal h cmd input timeout True True)
     (\<lambda>(memory, output, rc, _).
        Returns (memory,
                 if int_of_float (time_after h - time_before h) = 0 then 1
                 else int_of_float (time_after h - time_before h),
                 output, rc))"
  by (simp add: run_measured_cmd_def Let_def)

lemma run_cmd_internal_plain_memory:
  assumes "run_cmd_internal h cmd input timeout buffer_output False = Returns (m, out, rc, f)"
  shows "m = 0"
proof (cases "start h cmd buffer_output")
  case (Returns p)
  show ?thesis
  proof (cases "communicate p input timeout")
    case (Returns out')
    with assms run_cmd_internal_plain_finished [OF \<open>start h cmd buffer_output = Returns p\<close> Returns]
    show ?thesis by simp
  next
    case (Raises e)
    then have "e = TimeoutExpired"
      by (auto simp: communicate_def Let_def split: option.splits if_splits)
    with Raises assms
      run_cmd_internal_plain_expired [OF \<open>start h cmd buffer_output = Returns p\<close>, of input timeout]
    show ?thesis by simp
  next
    case Blocks
    with assms \<open>start h cmd buffer_output = Returns p\<close> show ?thesis
      by (simp add: run_cmd_internal_def and_then_def)
  qed
next
  case (Raises e)
  with assms show ?thesis by (simp add: run_cmd_internal_def and_then_def)
next
  case Blocks
  with assms show ?thesis by (simp add: run_cmd_internal_def and_then_def)
qed

lemma run_measured_cmd_no_tool_finished:
  assumes "LOG_TIME h = tool # args" and "which h tool = None"
    and "start h cmd True = Returns p"
    and "finishes_after (p_run p input) = Some d"
    and "\<forall>t. timeout = Some t \<longrightarrow> d \<le> rat_of_int t"
  shows "run_measured_cmd h cmd input timeout =
         Returns (0,
                  if int_of_float (time_after h - time_before h) = 0 then 1
                  else int_of_float (time_after h - time_before h),
                  Some (strip_shell_colors (rstrip (written (p_run p input)))),
                  exit_status (p_run p input))"
proof -
  have "p_piped p" using start_cases [OF assms(3)] by simp
  moreover have "run_cmd_internal h cmd input timeout True True =
        run_cmd_internal h cmd input timeout True False"
    using run_cmd_internal_no_tool [OF assms(1)] assms(2) by (simp add: tool_exists_def)
  ultimately show ?thesis
    using run_cmd_internal_plain_finished [OF assms(3) communicate_finishes [OF assms(4,5)]]
    by (simp add: run_measured_cmd_unfold and_then_def stdout_data_def returncode_def)
qed

text \<open>
  Claim C9. Where the measuring tool is not installed, a measured run is the buffered
  plain run of the command itself: the same outcome (so no error of its own), memory 0,
  and the output of the plain run, from which no report is parsed or cut.
\<close>

theorem run_measured_cmd_without_tool:
  assumes "LOG_TIME h = tool # args" and "which h tool = None"
  shows "run_measured_cmd h cmd input timeout =
           and_then (run_cmd h cmd input timeout True)
             (\<lambda>(output, rc, timeouted).
                Returns (0,
                         if int_of_float (time_after h - time_before h) = 0 then 1
                         else int_of_float (time_after h - time_before h),
                         output, rc)) \<and>
         (start h cmd True = Returns p \<and> finishes_after (p_run p input) = Some d \<and>
          (\<forall>t. timeout = Some t \<longrightarrow> d \<le> rat_of_int t) \<longrightarrow>
            run_measured_cmd h cmd input timeout =
              Returns (0,
                       if int_of_float (time_after h - time_before h) = 0 then 1
                       else int_of_float (time_after h - time_before h),
                       Some (strip_shell_colors (rstrip (written (p_run p input)))),
                       exit_status (p_run p input)))"
proof
  have same: "run_cmd_internal h cmd input timeout True True =
        run_cmd_internal h cmd input timeout True False"
    using run_cmd_internal_no_tool [OF assms(1)] assms(2) by (simp add: tool_exists_def)
  show "run_measured_cmd h cmd input timeout =
           and_then (run_cmd h cmd input timeout True)
             (\<lambda>(output, rc, timeouted).
                Returns (0,
                         if int_of_float (time_after h - time_before h) = 0 then 1
                         else int_of_float (time_after h - time_before h),
                         output, rc))"
  proof (cases "run_cmd_internal h cmd input timeout True False")
    case (Returns r)
    obtain m out rc f where r: "r = (m, out, rc, f)" by (cases r) auto
    with Returns have "m = 0" using run_cmd_internal_plain_memory by blast
    with Returns r same show ?thesis
      by (simp add: run_measured_cmd_unfold run_cmd_def and_then_def)
  next
    case (Raises e)
    with same show ?thesis by (simp add: run_measured_cmd_unfold run_cmd_def and_then_def)
  next
    case Blocks
    with same show ?thesis by (simp add: run_measured_cmd_unfold run_cmd_def and_then_def)
  qed
next
  show "start h cmd True = Returns p \<and> finishes_after (p_run p input) = Some d \<and>
          (\<forall>t. timeout = Some t \<longrightarrow> d \<le> rat_of_int t) \<longrightarrow>
            run_measured_cmd h cmd input timeout =
              Returns (0,
                       if int_of_float (time_after h - time_before h) = 0 then 1
                       else int_of_float (time_after h - time_before h),
                       Some (strip_shell_colors (rstrip (written (p_run p input)))),
                       exit_status (p_run p input))"
    using run_measured_cmd_no_tool_finished [OF assms, of cmd p input d timeout] by blast
qed

lemma rstrip_example_measured_output:
  "strip_shell_colors (rstrip example_measured_output) =
     ''hello'' @ [CHR 0x0A] @ ''    Command being timed: '' @ [CHR 0x22] @ ''x'' @
     [CHR 0x22, CHR 0x0A] @ ''    Maximum resident set size (kbytes): 4096''"
  by code_simp

theorem run_measured_cmd_without_tool_witness:
  "run_measured_cmd (example_host (example_run 1 example_measured_output 0) False 0 3)
     [''tool''] [] None =
   Returns (0, 3,
     Some (''hello'' @ [CHR 0x0A] @ ''    Command being timed: '' @ [CHR 0x22] @ ''x'' @
           [CHR 0x22, CHR 0x0A] @ ''    Maximum resident set size (kbytes): 4096''), 0)"
proof -
  let ?b = "example_run 1 example_measured_output 0"
  let ?h = "example_host ?b False 0 3"
  let ?p = "\<lparr>p_args = [''tool''], p_piped = True, p_run = (\<lambda>input. ?b)\<rparr>"
  have 1: "LOG_TIME ?h = ''/usr/bin/time'' # [''-v'']" by (simp add: example_host_def)
  have 2: "which ?h ''/usr/bin/time'' = None" by (simp add: example_host_def)
  have 3: "start ?h [''tool''] True = Returns ?p" by (rule example_start)
  have 4: "finishes_after (p_run ?p []) = Some 1" by (simp add: example_run_def)
  have 5: "\<forall>t. (None :: int option) = Some t \<longrightarrow> 1 \<le> rat_of_int t" by simp
  have "run_measured_cmd ?h [''tool''] [] None =
        Returns (0,
                 if int_of_float (time_after ?h - time_before ?h) = 0 then 1
                 else int_of_float (time_after ?h - time_before ?h),
                 Some (strip_shell_colors (rstrip (written (p_run ?p [])))),
                 exit_status (p_run ?p []))"
    using run_measured_cmd_without_tool [OF 1 2, of "[''tool'']" "[]" None ?p 1] 3 4 5 by blast
  moreover have "time_after ?h - time_before ?h = 3" by (simp add: example_host_def)
  moreover have "int_of_float 3 = 3" by code_simp
  moreover have "written (p_run ?p []) = example_measured_output" "exit_status (p_run ?p []) = 0"
    by (simp_all add: example_run_def)
  ultimately show ?thesis using rstrip_example_measured_output by simp
qed

lemma example_killed_measured_run:
  "run_measured_cmd
     (example_host (killed_run\<lparr>written_before_kill := text\<rparr>) True 0 6)
     [''tool''] [] (Some 5) =
   Returns (0, 6, Some (strip_shell_colors (rstrip text)), 137)"
proof -
  let ?b = "killed_run\<lparr>written_before_kill := text\<rparr>"
  let ?h = "example_host ?b True 0 6"
  let ?p = "\<lparr>p_args = LOG_TIME ?h @ [''tool''], p_piped = True, p_run = (\<lambda>input. ?b)\<rparr>"
  have 1: "LOG_TIME ?h = ''/usr/bin/time'' # [''-v'']" by (simp add: example_host_def)
  have 2: "tool_exists ?h ''/usr/bin/time''" by (simp add: example_host_def tool_exists_def)
  have 3: "start ?h (LOG_TIME ?h @ [''tool'']) True = Returns ?p" by (rule example_start)
  have 4: "Some (5 :: int) = Some 5" by simp
  have 5: "\<forall>d. finishes_after (p_run ?p []) = Some d \<longrightarrow> rat_of_int 5 < d"
    by (simp add: killed_run_def)
  have 6: "time_after ?h - time_before ?h = 6" by (simp add: example_host_def)
  have 7: "int_of_float 6 = 6" by code_simp
  have "run_cmd_internal ?h [''tool''] [] (Some 5) True True =
        Returns (0, Some (strip_shell_colors (rstrip text)), 137, True)"
    using run_cmd_internal_tracked_expired [OF 1 2 3 communicate_expires [OF 4 5]]
    by (simp add: communicate_killed_def stdout_data_def TIMEOUT_RC_def)
  then show ?thesis
    using 7 by (simp add: run_measured_cmd_unfold and_then_def 6)
qed

text \<open>
  Claim C10, amended. A measured run with the measuring tool installed whose timeout
  expires reports memory 0 and return code 137; its output is the text captured until
  the kill, trimmed and stripped of colours only: no report is parsed or cut on this
  path, so a report stays where the capture holds one, and the capture need not hold
  one. The inner call sets the timeout flag, and the result of \<open>run_measured_cmd\<close> has no
  place for it.
\<close>

theorem run_measured_cmd_timeout:
  assumes "LOG_TIME h = tool # args" and "which h tool = Some path"
    and "start h (LOG_TIME h @ cmd) True = Returns p"
    and "timeout = Some t"
    and "\<forall>d. finishes_after (p_run p input) = Some d \<longrightarrow> rat_of_int t < d"
  shows "run_cmd_internal h cmd input timeout True True =
           Returns (0, Some (strip_shell_colors (rstrip (written_before_kill (p_run p input)))),
                    137, True) \<and>
         run_measured_cmd h cmd input timeout =
           Returns (0,
                    if int_of_float (time_after h - time_before h) = 0 then 1
                    else int_of_float (time_after h - time_before h),
                    Some (strip_shell_colors (rstrip (written_before_kill (p_run p input)))),
                    137)"
proof -
  have "p_piped p" using start_cases [OF assms(3)] by simp
  moreover have "tool_exists h tool" using assms(2) by (simp add: tool_exists_def)
  ultimately have "run_cmd_internal h cmd input timeout True True =
           Returns (0, Some (strip_shell_colors (rstrip (written_before_kill (p_run p input)))),
                    137, True)"
    using run_cmd_internal_tracked_expired
      [OF assms(1) _ assms(3) communicate_expires [OF assms(4,5)]]
    by (simp add: communicate_killed_def stdout_data_def TIMEOUT_RC_def)
  then show ?thesis by (simp add: run_measured_cmd_unfold and_then_def)
qed

theorem run_measured_cmd_timeout_witness:
  "run_measured_cmd
     (example_host (killed_run\<lparr>written_before_kill := example_measured_output\<rparr>) True 0 6)
     [''tool''] [] (Some 5) =
   Returns (0, 6,
     Some (''hello'' @ [CHR 0x0A] @ ''    Command being timed: '' @ [CHR 0x22] @ ''x'' @
           [CHR 0x22, CHR 0x0A] @ ''    Maximum resident set size (kbytes): 4096''), 137)"
proof -
  let ?b = "killed_run\<lparr>written_before_kill := example_measured_output\<rparr>"
  let ?h = "example_host ?b True 0 6"
  let ?p = "\<lparr>p_args = LOG_TIME ?h @ [''tool''], p_piped = True, p_run = (\<lambda>input. ?b)\<rparr>"
  have 1: "LOG_TIME ?h = ''/usr/bin/time'' # [''-v'']" by (simp add: example_host_def)
  have 2: "which ?h ''/usr/bin/time'' = Some ''/usr/bin/time''" by (simp add: example_host_def)
  have 3: "start ?h (LOG_TIME ?h @ [''tool'']) True = Returns ?p" by (rule example_start)
  have 4: "Some (5 :: int) = Some 5" by simp
  have 5: "\<forall>d. finishes_after (p_run ?p []) = Some d \<longrightarrow> rat_of_int 5 < d"
    by (simp add: killed_run_def)
  have "run_measured_cmd ?h [''tool''] [] (Some 5) =
           Returns (0,
                    if int_of_float (time_after ?h - time_before ?h) = 0 then 1
                    else int_of_float (time_after ?h - time_before ?h),
                    Some (strip_shell_colors (rstrip (written_before_kill (p_run ?p [])))),
                    137)"
    using run_measured_cmd_timeout [OF 1 2 3 4 5] by blast
  moreover have "time_after ?h - time_before ?h = 6" by (simp add: example_host_def)
  moreover have "int_of_float 6 = 6" by code_simp
  moreover have "written_before_kill (p_run ?p []) = example_measured_output" by simp
  ultimately show ?thesis using rstrip_example_measured_output by simp
qed

text \<open>
  The claim as stated fails: the kill ends the measuring tool before it reports, so the
  capture of such a run is what the command wrote, here \<^verbatim>\<open>hello\<close> and a line break, and
  the returned output holds none of the report's texts.
\<close>

theorem run_measured_cmd_timeout_counterexample:
  "run_measured_cmd
     (example_host (killed_run\<lparr>written_before_kill := ''hello'' @ [CHR 0x0A]\<rparr>) True 0 6)
     [''tool''] [] (Some 5) = Returns (0, 6, Some ''hello'', 137) \<and>
   find_sub ''Command being timed:'' ''hello'' = None \<and>
   find_sub ''Command exited with non-zero status'' ''hello'' = None \<and>
   find_sub ''Maximum resident set size'' ''hello'' = None"
proof -
  have "strip_shell_colors (rstrip (''hello'' @ [CHR 0x0A])) = ''hello''" by code_simp
  then have "run_measured_cmd
     (example_host (killed_run\<lparr>written_before_kill := ''hello'' @ [CHR 0x0A]\<rparr>) True 0 6)
     [''tool''] [] (Some 5) = Returns (0, 6, Some ''hello'', 137)"
    using example_killed_measured_run [of "''hello'' @ [CHR 0x0A]"] by simp
  moreover have "find_sub ''Command being timed:'' ''hello'' = None" by code_simp
  moreover have "find_sub ''Command exited with non-zero status'' ''hello'' = None" by code_simp
  moreover have "find_sub ''Maximum resident set size'' ''hello'' = None" by code_simp
  ultimately show ?thesis by blast
qed

section \<open>Elapsed time\<close>

lemma run_measured_cmd_elapsed_eq:
  assumes "run_measured_cmd h cmd input timeout = Returns (memory, elapsed, output, rc)"
  shows "elapsed = (if int_of_float (time_after h - time_before h) = 0 then 1
                    else int_of_float (time_after h - time_before h))"
  using assms
  by (cases "run_cmd_internal h cmd input timeout True True")
     (auto simp: run_measured_cmd_unfold and_then_def)

lemma example_measured_run:
  "run_measured_cmd (example_host (example_run 1 ''x'' 0) False t0 t1) [''tool''] [] None =
   Returns (0, if int_of_float (t1 - t0) = 0 then 1 else int_of_float (t1 - t0), Some ''x'', 0)"
proof -
  let ?b = "example_run 1 ''x'' 0"
  let ?h = "example_host ?b False t0 t1"
  let ?p = "\<lparr>p_args = [''tool''], p_piped = True, p_run = (\<lambda>input. ?b)\<rparr>"
  have 1: "LOG_TIME ?h = ''/usr/bin/time'' # [''-v'']" by (simp add: example_host_def)
  have 2: "which ?h ''/usr/bin/time'' = None" by (simp add: example_host_def)
  have 3: "start ?h [''tool''] True = Returns ?p" by (rule example_start)
  have 4: "finishes_after (p_run ?p []) = Some 1" by (simp add: example_run_def)
  have 5: "\<forall>t. (None :: int option) = Some t \<longrightarrow> 1 \<le> rat_of_int t" by simp
  have 6: "strip_shell_colors (rstrip ''x'') = ''x''" by code_simp
  have 7: "time_after ?h = t1" "time_before ?h = t0" by (simp_all add: example_host_def)
  have 8: "written (p_run ?p []) = ''x''" "exit_status (p_run ?p []) = 0"
    by (simp_all add: example_run_def)
  show ?thesis
    using run_measured_cmd_no_tool_finished [OF 1 2 3 4 5] 6
    unfolding 7 8 by simp
qed

text \<open>
  Claim C5, amended. The elapsed time of a measured run is the difference of the two clock
  readings truncated towards zero (not rounded to the nearest integer), with 0 replaced
  by 1: for readings in order it is \<open>max(1, floor(end - start))\<close>.
\<close>

theorem run_measured_cmd_elapsed:
  assumes "run_measured_cmd h cmd input timeout = Returns (memory, elapsed, output, rc)"
  shows "(time_before h \<le> time_after h \<longrightarrow>
            elapsed = max 1 \<lfloor>time_after h - time_before h\<rfloor>) \<and>
         (time_after h < time_before h \<longrightarrow>
            elapsed = (if \<lceil>time_after h - time_before h\<rceil> = 0 then 1
                       else \<lceil>time_after h - time_before h\<rceil>))"
proof (intro conjI impI)
  define n where "n = \<lfloor>time_after h - time_before h\<rfloor>"
  assume "time_before h \<le> time_after h"
  then have nonneg: "0 \<le> time_after h - time_before h" by simp
  then have "int_of_float (time_after h - time_before h) = n" and "0 \<le> n"
    by (simp_all add: int_of_float_def n_def)
  then have "elapsed = (if n = 0 then 1 else n)" and "0 \<le> n"
    using run_measured_cmd_elapsed_eq [OF assms] by simp_all
  then have "elapsed = max 1 n" by (simp add: max_def)
  then show "elapsed = max 1 \<lfloor>time_after h - time_before h\<rfloor>" by (simp only: n_def)
next
  define n where "n = \<lceil>time_after h - time_before h\<rceil>"
  assume "time_after h < time_before h"
  then have "\<not> 0 \<le> time_after h - time_before h" by simp
  then have "int_of_float (time_after h - time_before h) = n"
    by (simp add: int_of_float_def n_def)
  then have "elapsed = (if n = 0 then 1 else n)"
    using run_measured_cmd_elapsed_eq [OF assms] by simp
  then show "elapsed = (if \<lceil>time_after h - time_before h\<rceil> = 0 then 1
                       else \<lceil>time_after h - time_before h\<rceil>)"
    by (simp only: n_def)
qed

theorem run_measured_cmd_elapsed_witness:
  "run_measured_cmd (example_host (example_run 1 ''x'' 0) False 0 (7 / 4)) [''tool''] [] None =
     Returns (0, 1, Some ''x'', 0) \<and>
   (1 :: int) = max 1 \<lfloor>7 / 4 - 0 :: rat\<rfloor>"
proof -
  let ?h = "example_host (example_run 1 ''x'' 0) False 0 (7 / 4)"
  have "int_of_float (7 / 4 - 0) = 1" by code_simp
  then have run: "run_measured_cmd ?h [''tool''] [] None = Returns (0, 1, Some ''x'', 0)"
    using example_measured_run [of 0 "7 / 4"] by simp
  have "time_before ?h \<le> time_after ?h" by (simp add: example_host_def)
  then have "(1 :: int) = max 1 \<lfloor>time_after ?h - time_before ?h\<rfloor>"
    using run_measured_cmd_elapsed [OF run] by blast
  then have "(1 :: int) = max 1 \<lfloor>7 / 4 - 0 :: rat\<rfloor>" by (simp add: example_host_def)
  with run show ?thesis by blast
qed

text \<open>
  The claim as stated fails: with readings 0 and 1.75 the run reports 1 second, where
  rounding gives 2.
\<close>

theorem run_measured_cmd_elapsed_counterexample:
  "run_measured_cmd (example_host (example_run 1 ''x'' 0) False 0 (7 / 4)) [''tool''] [] None =
     Returns (0, 1, Some ''x'', 0) \<and>
   spec_elapsed 0 (7 / 4) = 2"
proof -
  have "int_of_float (7 / 4 - 0) = 1" by code_simp
  then have "run_measured_cmd (example_host (example_run 1 ''x'' 0) False 0 (7 / 4))
      [''tool''] [] None = Returns (0, 1, Some ''x'', 0)"
    using example_measured_run [of 0 "7 / 4"] by simp
  moreover have "spec_elapsed 0 (7 / 4) = 2" by code_simp
  ultimately show ?thesis by blast
qed

text \<open>
  Claim C7, amended. The elapsed time a measured run reports is at least 1 whenever the
  second clock reading is not earlier than the first, also for a run shorter than a
  second.
\<close>

theorem run_measured_cmd_elapsed_positive:
  assumes "run_measured_cmd h cmd input timeout = Returns (memory, elapsed, output, rc)"
    and "time_before h \<le> time_after h"
  shows "1 \<le> elapsed"
proof -
  define n where "n = \<lfloor>time_after h - time_before h\<rfloor>"
  have "0 \<le> time_after h - time_before h" using assms(2) by simp
  then have "int_of_float (time_after h - time_before h) = n" and "0 \<le> n"
    by (simp_all add: int_of_float_def n_def)
  then have "elapsed = (if n = 0 then 1 else n)" and "0 \<le> n"
    using run_measured_cmd_elapsed_eq [OF assms(1)] by simp_all
  then show ?thesis by (simp split: if_splits)
qed

theorem run_measured_cmd_elapsed_positive_witness:
  "run_measured_cmd (example_host (example_run 1 ''x'' 0) False 100 (401 / 4)) [''tool''] [] None =
     Returns (0, 1, Some ''x'', 0) \<and> (1 :: int) \<le> 1"
proof -
  let ?h = "example_host (example_run 1 ''x'' 0) False 100 (401 / 4)"
  have "int_of_float (401 / 4 - 100) = 0" by code_simp
  then have run: "run_measured_cmd ?h [''tool''] [] None = Returns (0, 1, Some ''x'', 0)"
    using example_measured_run [of 100 "401 / 4"] by simp
  have "time_before ?h \<le> time_after ?h" by (simp add: example_host_def)
  then have "(1 :: int) \<le> 1"
    using run_measured_cmd_elapsed_positive [OF run] by blast
  with run show ?thesis by blast
qed

text \<open>
  The claim as stated fails: the wall clock set back by five seconds during the run gives
  an elapsed time of \<open>-5\<close>.
\<close>

theorem run_measured_cmd_elapsed_positive_counterexample:
  "run_measured_cmd (example_host (example_run 1 ''x'' 0) False 10 5) [''tool''] [] None =
     Returns (0, - 5, Some ''x'', 0)"
proof -
  have "int_of_float (5 - 10) = - 5" by code_simp
  then show ?thesis
    using example_measured_run [of 10 5] by simp
qed

section \<open>Cutting the report off the measured output\<close>

lemma first_index_Nil: "sep \<noteq> [] \<Longrightarrow> first_index sep [] = 0"
  by (simp add: first_index_def)

lemma first_index_Cons:
  "first_index sep (c # cs) = (if prefix sep (c # cs) then 0 else Suc (first_index sep cs))"
  by (simp add: first_index_def split: option.splits)

lemma first_index_le: "first_index sep s \<le> length s"
  by (induction s) (simp_all add: first_index_def split: option.splits)

lemma first_index_occurs:
  "first_index sep s < length s \<Longrightarrow> prefix sep (drop (first_index sep s) s)"
  by (induction s) (auto simp: first_index_Cons split: if_splits)

lemma first_index_least:
  "i < first_index sep s \<Longrightarrow> \<not> prefix sep (drop i s)"
proof (induction s arbitrary: i)
  case Nil
  then show ?case by (simp add: first_index_def split: if_splits)
next
  case (Cons c cs)
  then show ?case
    by (cases i) (auto simp: first_index_Cons split: if_splits)
qed

lemma hd_split_py:
  assumes "sep \<noteq> []"
  shows "hd (split_py sep s) = take (first_index sep s) s"
  using assms
  by (subst split_py.simps) (simp add: first_index_def split: option.splits)

lemma first_index_skip:
  assumes "x \<notin> set bs"
  shows "first_index (x # sep) (bs @ t) = length bs + first_index (x # sep) t"
  using assms by (induction bs) (auto simp: first_index_Cons)

lemma prefix_survives_cut:
  assumes "x \<notin> set bs" and "prefix (x # bs) (c # cs)"
  shows "prefix (x # bs) (c # take (first_index (x # sep) cs) cs)"
proof -
  from assms(2) obtain t where c: "c = x" and cs: "cs = bs @ t"
    by (auto simp: prefix_def)
  have "take (first_index (x # sep) cs) cs = bs @ take (first_index (x # sep) t) t"
    using first_index_skip [OF assms(1), of sep t] cs by simp
  with c show ?thesis by simp
qed

lemma cut_twice:
  assumes "x \<notin> set bs"
  shows "take (first_index (x # bs) (take (first_index (x # as) s) s))
              (take (first_index (x # as) s) s) =
         take (min (first_index (x # as) s) (first_index (x # bs) s)) s"
proof (induction s)
  case Nil
  show ?case by simp
next
  case (Cons c cs)
  show ?case
  proof (cases "prefix (x # as) (c # cs)")
    case True
    then have "first_index (x # as) (c # cs) = 0" by (simp add: first_index_Cons)
    then show ?thesis by (simp add: first_index_Nil)
  next
    case notA: False
    then have fa: "first_index (x # as) (c # cs) = Suc (first_index (x # as) cs)"
      by (simp add: first_index_Cons)
    show ?thesis
    proof (cases "prefix (x # bs) (c # cs)")
      case True
      then have "prefix (x # bs) (c # take (first_index (x # as) cs) cs)"
        using prefix_survives_cut [OF assms] by blast
      then have "first_index (x # bs) (c # take (first_index (x # as) cs) cs) = 0"
        by (simp only: first_index_Cons if_True)
      moreover have "first_index (x # bs) (c # cs) = 0"
        using True by (simp only: first_index_Cons if_True)
      ultimately show ?thesis by (simp add: fa)
    next
      case notB: False
      have "prefix (c # take (first_index (x # as) cs) cs) (c # cs)"
        by (simp add: take_is_prefix)
      then have "\<not> prefix (x # bs) (c # take (first_index (x # as) cs) cs)"
        using notB prefix_order.trans by blast
      then have "first_index (x # bs) (c # take (first_index (x # as) cs) cs) =
                 Suc (first_index (x # bs) (take (first_index (x # as) cs) cs))"
        by (simp only: first_index_Cons if_False)
      moreover have "first_index (x # bs) (c # cs) = Suc (first_index (x # bs) cs)"
        using notB by (simp only: first_index_Cons if_False)
      ultimately show ?thesis using Cons.IH by (simp add: fa)
    qed
  qed
qed

lemma get_clean_output_eq_spec:
  "get_clean_output_from_measured_output output = spec_clean_output output"
proof -
  have "CHR ''C'' \<notin> set ''ommand exited with non-zero status''" by simp
  then have "take (first_index ''Command exited with non-zero status''
                 (take (first_index ''Command being timed:'' output) output))
              (take (first_index ''Command being timed:'' output) output) =
         take (min (first_index ''Command being timed:'' output)
                   (first_index ''Command exited with non-zero status'' output)) output"
    using cut_twice [of "CHR ''C''" "''ommand exited with non-zero status''"
        "''ommand being timed:''" "output"] by simp
  then show ?thesis
    by (simp add: get_clean_output_from_measured_output_def spec_clean_output_def hd_split_py)
qed

lemma example_tracked_run:
  "run_measured_cmd (example_host (example_run 1 example_measured_output 0) True 0 2)
     [''x''] [] None = Returns (4, 2, Some ''hello'', 0)"
proof -
  let ?b = "example_run 1 example_measured_output 0"
  let ?h = "example_host ?b True 0 2"
  let ?p = "\<lparr>p_args = LOG_TIME ?h @ [''x''], p_piped = True, p_run = (\<lambda>input. ?b)\<rparr>"
  have 1: "LOG_TIME ?h = ''/usr/bin/time'' # [''-v'']" by (simp add: example_host_def)
  have 2: "tool_exists ?h ''/usr/bin/time''" by (simp add: example_host_def tool_exists_def)
  have 3: "start ?h (LOG_TIME ?h @ [''x'']) True = Returns ?p" by (rule example_start)
  obtain c cs where ccs: "example_measured_output = c # cs"
    by (cases example_measured_output) (simp_all add: example_measured_output_def)
  have 4: "communicate ?p [] None = Returns (Some (c # cs))"
    by (simp add: communicate_def example_run_def stdout_data_def ccs [symmetric])
  have 5: "get_memory_from_measured_output (strip_shell_colors (rstrip example_measured_output)) =
           Returns 4" by code_simp
  have 6: "get_clean_output_from_measured_output
             (strip_shell_colors (rstrip example_measured_output)) = ''hello''" by code_simp
  have 7: "int_of_float (2 - 0) = 2" by code_simp
  have "run_cmd_internal ?h [''x''] [] None True True = Returns (4, Some ''hello'', 0, False)"
    using run_cmd_internal_tracked_finished [OF 1 2 3 4] 5 6
    by (simp add: ccs [symmetric] and_then_def returncode_def example_run_def)
  then show ?thesis
    using 7 by (simp add: run_measured_cmd_unfold and_then_def example_host_def)
qed

text \<open>
  Claim C3. The cleaned output of a measured run is the text in front of the earlier of
  the two markers \<^verbatim>\<open>Command being timed:\<close> and \<^verbatim>\<open>Command exited with non-zero status\<close>
  (all of the text where neither occurs), with trailing whitespace trimmed. The example
  of the specification cleans to \<^verbatim>\<open>hello\<close> with 4 megabytes, also through a whole
  measured run.
\<close>

theorem get_clean_output_cut_point:
  "get_clean_output_from_measured_output output =
     rstrip (take (min (first_index ''Command being timed:'' output)
                       (first_index ''Command exited with non-zero status'' output)) output) \<and>
   get_clean_output_from_measured_output example_measured_output = ''hello'' \<and>
   get_memory_from_measured_output example_measured_output = Returns 4 \<and>
   run_measured_cmd (example_host (example_run 1 example_measured_output 0) True 0 2)
     [''x''] [] None = Returns (4, 2, Some ''hello'', 0)"
proof (intro conjI)
  show "get_clean_output_from_measured_output output =
     rstrip (take (min (first_index ''Command being timed:'' output)
                       (first_index ''Command exited with non-zero status'' output)) output)"
    using get_clean_output_eq_spec [of "output"] by (simp add: spec_clean_output_def)
  show "get_clean_output_from_measured_output example_measured_output = ''hello''"
    by code_simp
  show "get_memory_from_measured_output example_measured_output = Returns 4"
    by code_simp
  show "run_measured_cmd (example_host (example_run 1 example_measured_output 0) True 0 2)
     [''x''] [] None = Returns (4, 2, Some ''hello'', 0)"
    by (rule example_tracked_run)
qed

section \<open>Reading the peak memory\<close>

lemma search_memory_unfold:
  "s \<noteq> [] \<Longrightarrow>
   search_memory s =
     (if prefix MEMORY_MARKER s \<and> memory_group s \<noteq> [] then Some (memory_group s)
      else search_memory (tl s))"
  by (cases s) simp_all

lemma memory_match_digit:
  assumes "prefix MEMORY_MARKER s" and "memory_group s \<noteq> []"
  shows "\<exists>d t. s = MEMORY_MARKER @ d # t \<and> isdigit d"
proof -
  from assms(1) obtain u where s: "s = MEMORY_MARKER @ u" by (auto simp: prefix_def)
  with assms(2) have tw: "takeWhile isdigit u \<noteq> []" by (simp add: memory_group_def)
  then obtain d t where u: "u = d # t" by (cases u) auto
  with tw have "isdigit d" by (auto split: if_splits)
  with s u show ?thesis by blast
qed

lemma search_memory_skip:
  assumes "\<forall>i<length pre. \<forall>d t. drop i (pre @ s) = MEMORY_MARKER @ d # t \<longrightarrow> \<not> isdigit d"
  shows "search_memory (pre @ s) = search_memory s"
  using assms
proof (induction pre)
  case Nil
  show ?case by simp
next
  case (Cons p ps)
  have no0: "\<not> (prefix MEMORY_MARKER (p # ps @ s) \<and> memory_group (p # ps @ s) \<noteq> [])"
  proof
    assume "prefix MEMORY_MARKER (p # ps @ s) \<and> memory_group (p # ps @ s) \<noteq> []"
    then obtain d t where "p # ps @ s = MEMORY_MARKER @ d # t" and "isdigit d"
      using memory_match_digit by blast
    moreover have "\<forall>d t. drop 0 ((p # ps) @ s) = MEMORY_MARKER @ d # t \<longrightarrow> \<not> isdigit d"
      using Cons.prems by blast
    ultimately show False by simp
  qed
  have "\<forall>i<length ps. \<forall>d t. drop i (ps @ s) = MEMORY_MARKER @ d # t \<longrightarrow> \<not> isdigit d"
  proof (intro allI impI)
    fix i d t
    assume "i < length ps" and "drop i (ps @ s) = MEMORY_MARKER @ d # t"
    then have "Suc i < length (p # ps)" and "drop (Suc i) ((p # ps) @ s) = MEMORY_MARKER @ d # t"
      by simp_all
    then show "\<not> isdigit d" using Cons.prems by blast
  qed
  then have "search_memory (ps @ s) = search_memory s" by (rule Cons.IH)
  moreover have "search_memory (p # ps @ s) = search_memory (ps @ s)"
    by (simp only: search_memory.simps no0 if_False)
  ultimately show ?case by simp
qed

lemma search_memory_here:
  assumes "ds \<noteq> []" and "\<forall>c\<in>set ds. isdigit c" and "rest = [] \<or> \<not> isdigit (hd rest)"
  shows "search_memory (MEMORY_MARKER @ ds @ rest) = Some ds"
proof -
  have "takeWhile isdigit rest = []" using assms(3) by (cases rest) auto
  then have grp: "memory_group (MEMORY_MARKER @ ds @ rest) = ds"
    using assms(2) by (simp add: memory_group_def takeWhile_append2)
  have "MEMORY_MARKER @ ds @ rest \<noteq> []" using assms(1) by simp
  then show ?thesis
    using grp assms(1) by (simp add: search_memory_unfold)
qed

lemma decimal_value_snoc: "decimal_value (ds @ [c]) = 10 * decimal_value ds + digit_value c"
  by (simp add: decimal_value_def)

lemma decimal_value_nonneg: "\<forall>c\<in>set ds. isdigit c \<Longrightarrow> 0 \<le> decimal_value ds"
proof (induction ds rule: rev_induct)
  case Nil
  show ?case by (simp add: decimal_value_def)
next
  case (snoc c ds)
  then have "0 \<le> decimal_value ds" and "isdigit c" by simp_all
  moreover have "(of_char c :: int) = int (of_char c)"
    by (rule of_nat_of_char [symmetric])
  with \<open>isdigit c\<close> have "0 \<le> digit_value c"
    by (simp add: isdigit_def digit_value_def)
  ultimately show ?case by (simp add: decimal_value_snoc)
qed

lemma int_of_digits_short: "length g \<le> 4300 \<Longrightarrow> int_of_digits g = Returns (decimal_value g)"
  by (simp add: int_of_digits_def)

lemma bit_length_bound: "k < 2 ^ n \<Longrightarrow> bit_length k \<le> n"
proof (induction n arbitrary: k)
  case 0
  then have "k \<le> 0" by simp
  then show ?case by (simp add: bit_length.simps)
next
  case (Suc n)
  show ?case
  proof (cases "k \<le> 0")
    case True
    then show ?thesis by (simp add: bit_length.simps)
  next
    case False
    from Suc.prems have "k div 2 < 2 ^ n" by simp
    then have "bit_length (k div 2) \<le> n" by (rule Suc.IH)
    with False show ?thesis by (subst bit_length.simps) simp
  qed
qed

lemma truediv_1024_exact:
  assumes "k < 2 ^ 53"
  shows "truediv_1024 k = Returns (of_int k / 1024)"
proof -
  have "bit_length k \<le> 53" using assms by (rule bit_length_bound)
  then have "round_to_double k = k" by (simp add: round_to_double_def)
  moreover have "(2 :: int) ^ 53 \<le> 2 ^ 1034" by (rule power_increasing) simp_all
  then have "\<not> 2 ^ 1034 \<le> k" using assms by linarith
  ultimately show ?thesis by (simp add: truediv_1024_def)
qed

lemma int_of_float_quotient:
  assumes "0 \<le> k"
  shows "int_of_float (of_int k / 1024) = k div 1024"
proof -
  have "0 \<le> (of_int k / 1024 :: rat)" using assms by simp
  moreover have "\<lfloor>of_int k / of_int 1024 :: rat\<rfloor> = k div 1024"
    by (rule floor_divide_of_int_eq)
  ultimately show ?thesis by (simp add: int_of_float_def)
qed

lemma get_memory_of_group:
  assumes "search_memory output = Some g" and "g \<noteq> []" and "length g \<le> 4300"
    and "0 \<le> decimal_value g" and "decimal_value g < 2 ^ 53"
  shows "get_memory_from_measured_output output = Returns (max 1 (decimal_value g div 1024))"
proof -
  define q where "q = decimal_value g div 1024"
  have "0 \<le> q" using assms(4) by (simp add: q_def pos_imp_zdiv_nonneg_iff)
  have "int_of_float (of_int (decimal_value g) / 1024) = q"
    using int_of_float_quotient [OF assms(4)] by (simp add: q_def)
  then have "get_memory_from_measured_output output = Returns (if q = 0 then 1 else q)"
    using assms(1,2) int_of_digits_short [OF assms(3)] truediv_1024_exact [OF assms(5)]
    by (simp add: get_memory_from_measured_output_def and_then_def Let_def)
  with \<open>0 \<le> q\<close> have "get_memory_from_measured_output output = Returns (max 1 q)"
    by (simp add: max_def)
  then show ?thesis by (simp only: q_def)
qed

text \<open>A run of more than 4300 digits behind the marker makes the reading fail.\<close>

lemma get_memory_refuses_long_digit_text:
  assumes "search_memory output = Some g" and "4300 < length g"
  shows "get_memory_from_measured_output output = Raises ValueError"
proof -
  have "g \<noteq> []" using assms(2) by auto
  then show ?thesis
    using assms
    by (simp add: get_memory_from_measured_output_def int_of_digits_def and_then_def)
qed

text \<open>
  Claim C2, amended. Where the measured output holds the marker followed by the digits of
  an integer \<open>k\<close> (at the first place where the marker is followed by a digit), written
  with at most 4300 digits, and \<open>k\<close> is below \<open>2 ^ 53\<close> so that the division is exact,
  the memory reported is \<open>floor(k / 1024)\<close>, and 1 whenever that quotient is 0: \<open>k = 2048\<close>
  yields 2, \<open>k = 1\<close> yields 1, and \<open>k = 0\<close> yields 1 as well.
\<close>

theorem get_memory_floor_at_least_one:
  assumes "output = pre @ MEMORY_MARKER @ ds @ rest"
    and "ds \<noteq> []" and "\<forall>c\<in>set ds. isdigit c"
    and "rest = [] \<or> \<not> isdigit (hd rest)"
    and "\<forall>i<length pre. \<forall>d t. drop i output = MEMORY_MARKER @ d # t \<longrightarrow> \<not> isdigit d"
    and "length ds \<le> 4300"
    and "decimal_value ds < 2 ^ 53"
  shows "get_memory_from_measured_output output = Returns (max 1 (decimal_value ds div 1024))"
proof -
  have "search_memory output = search_memory (MEMORY_MARKER @ ds @ rest)"
    using search_memory_skip [of pre "MEMORY_MARKER @ ds @ rest"] assms(1,5) by simp
  then have "search_memory output = Some ds"
    using search_memory_here [OF assms(2-4)] by simp
  then show ?thesis
    using get_memory_of_group [of "output" ds] assms(2,6,7) decimal_value_nonneg [OF assms(3)]
    by blast
qed

theorem get_memory_floor_at_least_one_witness:
  "get_memory_from_measured_output
     (''ok'' @ [CHR 0x0A] @ ''Maximum resident set size (kbytes): 2048'' @ [CHR 0x0A]) = Returns 2 \<and>
   get_memory_from_measured_output ''Maximum resident set size (kbytes): 1'' = Returns 1"
proof -
  let ?pre = "''ok'' @ [CHR 0x0A]"
  let ?out = "?pre @ MEMORY_MARKER @ ''2048'' @ [CHR 0x0A]"
  have 1: "\<forall>c\<in>set ''2048''. isdigit c" by (simp add: isdigit_def)
  have 2: "[CHR 0x0A] = [] \<or> \<not> isdigit (hd [CHR 0x0A])" by (simp add: isdigit_def)
  have 3: "\<forall>i<length ?pre. \<forall>d t. drop i ?out = MEMORY_MARKER @ d # t \<longrightarrow> \<not> isdigit d"
  proof (intro allI impI)
    fix i d t
    assume "i < length ?pre" and eq: "drop i ?out = MEMORY_MARKER @ d # t"
    then consider "i = 0" | "i = 1" | "i = 2" by fastforce
    then show "\<not> isdigit d"
      using eq by cases (simp_all add: MEMORY_MARKER_def)
  qed
  have 4: "decimal_value ''2048'' < 2 ^ 53" by code_simp
  have 5: "max 1 (decimal_value ''2048'' div 1024) = 2" by code_simp
  have 9: "length ''2048'' \<le> 4300" by simp
  have a: "get_memory_from_measured_output ?out = Returns 2"
    using get_memory_floor_at_least_one [of ?out ?pre "''2048''" "[CHR 0x0A]"] 1 2 3 4 5 9
    by simp
  have 6: "\<forall>c\<in>set ''1''. isdigit c" by (simp add: isdigit_def)
  have 7: "decimal_value ''1'' < 2 ^ 53" by code_simp
  have 8: "max 1 (decimal_value ''1'' div 1024) = 1" by code_simp
  have 10: "length ''1'' \<le> 4300" by simp
  have b: "get_memory_from_measured_output (MEMORY_MARKER @ ''1'') = Returns 1"
    using get_memory_floor_at_least_one [of "MEMORY_MARKER @ ''1''" "[]" "''1''" "[]"] 6 7 8 10
    by simp
  from a b show ?thesis by (simp add: MEMORY_MARKER_def)
qed

text \<open>
  The claim as stated fails: a report of 0 kilobytes yields 1 megabyte, not 0.
\<close>

theorem get_memory_zero_counterexample:
  "get_memory_from_measured_output ''Maximum resident set size (kbytes): 0'' = Returns 1"
  by code_simp

text \<open>
  Beyond \<open>2 ^ 53\<close> the division through a float rounds: for \<open>k = 2 ^ 63 - 1\<close> the result
  is one more than \<open>floor(k / 1024)\<close>.
\<close>

lemma get_memory_rounds_large_values:
  "get_memory_from_measured_output
     ''Maximum resident set size (kbytes): 9223372036854775807'' = Returns 9007199254740992 \<and>
   (9223372036854775807 :: int) div 1024 = 9007199254740991"
  by code_simp

end
